theory Spec2Isabelle
  imports Main "HOL-Library.AList" "HOL-Library.Sublist"
begin

section \<open>Data model of \<^verbatim>\<open>scripts/dep_parse.py\<close>\<close>

text \<open>
  Design-unit identifiers and file paths are Python strings, modelled as \<open>string\<close>.
  The only keyword argument ever passed to \<^verbatim>\<open>add_node\<close> is \<^verbatim>\<open>file\<close>, so the attribute
  dictionary of a node is modelled by the optional value of that key: \<open>None\<close> is the empty
  dictionary \<^verbatim>\<open>{}\<close>, \<open>Some f\<close> is \<^verbatim>\<open>{"file": f}\<close>.

  \<^verbatim>\<open>_DiGraph.nodes\<close> is a Python dictionary; it is modelled as an association list in
  insertion order (assignment to an existing key keeps the key's position, as
  \<open>AList.update\<close> does). \<^verbatim>\<open>_DiGraph.edges\<close> is a list of pairs.
\<close>

type_synonym node_id = string
type_synonym path = string
type_synonym attrs = "path option"
type_synonym edge = "node_id \<times> node_id"

record digraph =
  nodes :: "(node_id \<times> attrs) list"
  edges :: "edge list"

definition empty_graph :: digraph where
  "empty_graph = \<lparr>nodes = [], edges = []\<rparr>"

text \<open>\<^verbatim>\<open>node in self.nodes\<close>\<close>

definition has_node :: "digraph \<Rightarrow> node_id \<Rightarrow> bool" where
  "has_node g n = (n \<in> fst ` set (nodes g))"

text \<open>\<^verbatim>\<open>self.nodes[node] = kwargs\<close>\<close>

definition add_node :: "digraph \<Rightarrow> node_id \<Rightarrow> attrs \<Rightarrow> digraph" where
  "add_node g node kwargs = g\<lparr>nodes := AList.update node kwargs (nodes g)\<rparr>"

text \<open>\<^verbatim>\<open>self.nodes.pop(node, None)\<close>, then the edge list is rebuilt without the edges
  that touch \<open>node\<close>.\<close>

definition remove_node :: "digraph \<Rightarrow> node_id \<Rightarrow> digraph" where
  "remove_node g node =
     g\<lparr>nodes := AList.delete node (nodes g),
       edges := filter (\<lambda>(n_from, n_to). n_from \<noteq> node \<and> n_to \<noteq> node) (edges g)\<rparr>"

text \<open>The loop \<^verbatim>\<open>for node in [node_from, node_to]\<close> of \<^verbatim>\<open>add_edge\<close> adds each endpoint
  that is missing, with empty attributes.\<close>

definition ensure_node :: "digraph \<Rightarrow> node_id \<Rightarrow> digraph" where
  "ensure_node g node = (if \<not> has_node g node then add_node g node None else g)"

definition add_edge :: "digraph \<Rightarrow> node_id \<Rightarrow> node_id \<Rightarrow> digraph" where
  "add_edge g node_from node_to =
     (let g1 = ensure_node g node_from;
          g2 = ensure_node g1 node_to
      in g2\<lparr>edges := edges g2 @ [(node_from, node_to)]\<rparr>)"

text \<open>\<^verbatim>\<open>copy\<close> returns a copy of the node dictionary; its callers iterate over the keys.\<close>

definition copy :: "digraph \<Rightarrow> (node_id \<times> attrs) list" where
  "copy g = nodes g"

definition out_edges :: "digraph \<Rightarrow> node_id \<Rightarrow> edge list" where
  "out_edges g node = filter (\<lambda>(n_from, n_to). n_from = node) (edges g)"

subsection \<open>Strings\<close>

text \<open>\<^verbatim>\<open>str.lower\<close> on strings of ASCII characters (characters are bytes here): a table
  from each upper-case letter to its lower-case letter, every other character unchanged.
  \<^verbatim>\<open>str.lower\<close> also folds the cased letters outside ASCII, which this function leaves as
  they are; a statement that depends on the letter case of an identifier is made for ASCII
  identifiers (\<open>ascii_file\<close> below).\<close>

definition upper_letters :: string where
  "upper_letters = ''ABCDEFGHIJKLMNOPQRSTUVWXYZ''"

definition lower_letters :: string where
  "lower_letters = ''abcdefghijklmnopqrstuvwxyz''"

definition lower_char :: "char \<Rightarrow> char" where
  "lower_char c =
     (case map_of (zip upper_letters lower_letters) c of
        None \<Rightarrow> c
      | Some d \<Rightarrow> d)"

definition lower :: "string \<Rightarrow> string" where
  "lower s = map lower_char s"

text \<open>\<^verbatim>\<open>n.replace("*", "ANY")\<close>: the pattern is one character, so the replacement is
  character by character.\<close>

definition replace_star :: "string \<Rightarrow> string" where
  "replace_star n = concat (map (\<lambda>c. if c = CHR ''*'' then ''ANY'' else [c]) n)"

text \<open>\<^verbatim>\<open>a in b\<close> on strings is the test for a contiguous substring.\<close>

fun str_in :: "string \<Rightarrow> string \<Rightarrow> bool" where
  "str_in a [] = (a = [])"
| "str_in a (x # b) = (prefix a (x # b) \<or> str_in a b)"

subsection \<open>The regular expressions built by the program\<close>

text \<open>
  \<^verbatim>\<open>_is_refering_to\<close> builds its pattern with
  \<^verbatim>\<open>u.replace(".", "\.").replace("*", ".+")\<close>. Identifiers are built from a library
  name, from names matched by \<^verbatim>\<open>[\w\d]+\<close>, and from \<^verbatim>\<open>.\<close> and \<^verbatim>\<open>*\<close>. For a library name
  that is a plain identifier the pattern is a sequence of two kinds of atoms: a literal
  character (a word character, or the escaped dot \<^verbatim>\<open>\.\<close>), and \<^verbatim>\<open>.+\<close> for each \<^verbatim>\<open>*\<close>.
  \<open>to_pattern\<close> yields that sequence. A library name with characters that are operators
  of regular expressions is outside this model: the code escapes the dot only.
\<close>

datatype re_atom = Lit char | AnyPlus

definition to_pattern :: "string \<Rightarrow> re_atom list" where
  "to_pattern u = map (\<lambda>c. if c = CHR ''*'' then AnyPlus else Lit c) u"

text \<open>
  Matching a pattern at the start of a string, under \<^verbatim>\<open>re.IGNORECASE\<close>: a literal matches
  a character equal to it up to the case of ASCII letters; \<^verbatim>\<open>.+\<close> matches one or more
  characters other than a newline. Only the existence of a match matters to the callers, so greediness is
  not modelled.
\<close>

fun match_here :: "re_atom list \<Rightarrow> string \<Rightarrow> bool" where
  "match_here [] s = True"
| "match_here (Lit c # as) [] = False"
| "match_here (Lit c # as) (x # s) = (lower_char c = lower_char x \<and> match_here as s)"
| "match_here (AnyPlus # as) [] = False"
| "match_here (AnyPlus # as) (x # s) =
     (x \<noteq> CHR 0x0A \<and> (match_here as s \<or> match_here (AnyPlus # as) s))"

text \<open>\<^verbatim>\<open>re.search\<close>: a match may start at any position of the string; nothing anchors it
  to the start or to the end.\<close>

fun re_search :: "re_atom list \<Rightarrow> string \<Rightarrow> bool" where
  "re_search p [] = match_here p []"
| "re_search p (x # s) = (match_here p (x # s) \<or> re_search p s)"

section \<open>\<^verbatim>\<open>VHDLDependencyParser\<close>\<close>

subsection \<open>\<^verbatim>\<open>_is_refering_to\<close>, \<^verbatim>\<open>resolve\<close>, \<^verbatim>\<open>remove\<close>\<close>

definition is_refering_to :: "node_id \<Rightarrow> node_id \<Rightarrow> bool" where
  "is_refering_to u v =
     (if CHR ''*'' \<in> set u \<and> CHR ''*'' \<notin> set v then re_search (to_pattern u) v else False)"

text \<open>The two nested loops of \<^verbatim>\<open>resolve\<close> run over the keys of the copy \<open>g\<close> taken at
  the start, while the edges are added to the live graph.\<close>

fun resolve_inner :: "node_id \<Rightarrow> node_id list \<Rightarrow> digraph \<Rightarrow> digraph" where
  "resolve_inner u [] dep_graph = dep_graph"
| "resolve_inner u (v # vs) dep_graph =
     resolve_inner u vs (if is_refering_to u v then add_edge dep_graph u v else dep_graph)"

fun resolve_outer :: "node_id list \<Rightarrow> node_id list \<Rightarrow> digraph \<Rightarrow> digraph" where
  "resolve_outer [] g dep_graph = dep_graph"
| "resolve_outer (u # us) g dep_graph = resolve_outer us g (resolve_inner u g dep_graph)"

definition resolve :: "digraph \<Rightarrow> digraph" where
  "resolve dep_graph =
     (let g = map fst (copy dep_graph) in resolve_outer g g dep_graph)"

text \<open>\<^verbatim>\<open>any([n.startswith(unit + ".") for unit in units])\<close>\<close>

definition in_units :: "string list \<Rightarrow> node_id \<Rightarrow> bool" where
  "in_units units n = list_ex (\<lambda>unit. prefix (unit @ ''.'') n) units"

fun remove_loop :: "string list \<Rightarrow> node_id list \<Rightarrow> digraph \<Rightarrow> digraph" where
  "remove_loop units [] dep_graph = dep_graph"
| "remove_loop units (n # ns) dep_graph =
     remove_loop units ns (if in_units units n then remove_node dep_graph n else dep_graph)"

definition remove :: "digraph \<Rightarrow> string list \<Rightarrow> digraph" where
  "remove dep_graph units = remove_loop units (map fst (copy dep_graph)) dep_graph"

subsection \<open>\<^verbatim>\<open>parse\<close>\<close>

text \<open>
  \<^verbatim>\<open>parse\<close> reads the file and obtains the sets \<open>provides\<close> and \<open>uses\<close> from
  \<^verbatim>\<open>_parse_file\<close>; the loops below are lines 86 to 97. A Python set is iterated in an
  order the language leaves open, so the sets are given as lists in the order of
  iteration, and every statement about the loops holds for every such order.
\<close>

fun parse_uses :: "digraph \<Rightarrow> node_id \<Rightarrow> string list \<Rightarrow> digraph" where
  "parse_uses g p [] = g"
| "parse_uses g p (use # uses) =
     (let u = lower use
      in if p = u then parse_uses g p uses else parse_uses (add_edge g p u) p uses)"

fun parse_provides :: "digraph \<Rightarrow> path \<Rightarrow> string list \<Rightarrow> string list \<Rightarrow> digraph" where
  "parse_provides g filepath [] uses = g"
| "parse_provides g filepath (provide # provides) uses =
     (let p = lower provide;
          g1 = add_node g p (Some filepath);
          g2 = parse_uses g1 p uses;
          g3 = (if count_list p CHR ''.'' = 1 then add_node g2 (p @ ''.*'') None else g2)
      in parse_provides g3 filepath provides uses)"

subsection \<open>The extractor: \<^verbatim>\<open>_parse_file\<close>\<close>

text \<open>
  The extractor applies fixed regular expressions to the text of a file with
  \<^verbatim>\<open>re.finditer\<close>. The regular-expression engine is the language's library; what the
  program does with its matches is modelled. A file's text is therefore given by the
  matches of each family of patterns, each match by its named groups (an empty group is
  the empty string).
\<close>

record src_matches =
  package_def :: "string list"  \<comment> \<open>\<^verbatim>\<open>PACKAGE_DEF_REGEX\<close>: name\<close>
  entity_def :: "string list"  \<comment> \<open>\<^verbatim>\<open>ENTITY_DEF_REGEX\<close>: name\<close>
  package_use :: "(string \<times> string) list"  \<comment> \<open>\<^verbatim>\<open>PACKAGE_USE_REGEX\<close>: library, name\<close>
  entity_use :: "(string \<times> string \<times> string) list"
    \<comment> \<open>\<^verbatim>\<open>ENTITY_USE_REGEX\<close>: library, name, architecture\<close>
  package_body_def :: "string list"  \<comment> \<open>\<^verbatim>\<open>PACKAGE_BODY_DEF_REGEX\<close>: name\<close>
  arch_def :: "(string \<times> string) list"  \<comment> \<open>\<^verbatim>\<open>ARCH_DEF_REGEX\<close>: name, entity\<close>
  psl :: "(string \<times> string \<times> string) list"  \<comment> \<open>\<^verbatim>\<open>PSL_REGEX\<close>: name, entity, architecture\<close>

text \<open>\<^verbatim>\<open>s.add(x)\<close> on a set kept as a duplicate-free list, and \<^verbatim>\<open>x or '*'\<close>.\<close>

definition set_add :: "string \<Rightarrow> string list \<Rightarrow> string list" where
  "set_add x s = List.insert x s"

definition or_star :: "string \<Rightarrow> string" where
  "or_star x = (if x = [] then ''*'' else x)"

definition parse_src_to_defines :: "src_matches \<Rightarrow> string \<Rightarrow> string list" where
  "parse_src_to_defines src library =
     (let defines = [];
          defines = fold (\<lambda>name. set_add (library @ ''.'' @ name)) (package_def src) defines;
          defines = fold (\<lambda>name. set_add (library @ ''.'' @ name)) (entity_def src) defines
      in defines)"

definition parse_src_to_uses :: "src_matches \<Rightarrow> string list" where
  "parse_src_to_uses src =
     (let uses = [];
          uses = fold (\<lambda>(library, name). set_add (library @ ''.'' @ name)) (package_use src) uses;
          uses = fold (\<lambda>(library, name, arch).
                   if arch \<noteq> [] then set_add (or_star library @ ''.'' @ name @ ''.'' @ arch)
                   else set_add (or_star library @ ''.'' @ name)) (entity_use src) uses
      in uses)"

definition parse_src_to_defines_and_uses ::
  "src_matches \<Rightarrow> string \<Rightarrow> string list \<times> string list" where
  "parse_src_to_defines_and_uses src library =
     (let du = ([], []);
          du = fold (\<lambda>name (defines, uses).
                 (set_add (library @ ''.'' @ name @ ''.body'') defines,
                  set_add (library @ ''.'' @ name) uses)) (package_body_def src) du;
          du = fold (\<lambda>(name, entity) (defines, uses).
                 (set_add (library @ ''.'' @ entity @ ''.'' @ name) defines,
                  set_add (library @ ''.'' @ entity) uses)) (arch_def src) du;
          du = fold (\<lambda>(name, entity, arch) (defines, uses).
                 (set_add (library @ ''.'' @ entity @ ''.'' @ or_star arch @ ''.'' @ name) defines,
                  set_add (''*.'' @ entity @ ''.'' @ or_star arch) uses)) (psl src) du
      in du)"

text \<open>\<^verbatim>\<open>defines.update(comb_define)\<close> adds every element of the second set to the first.\<close>

definition parse_file :: "src_matches \<Rightarrow> string \<Rightarrow> string list \<times> string list" where
  "parse_file src library =
     (let defines = parse_src_to_defines src library;
          uses = parse_src_to_uses src;
          (comb_define, comb_use) = parse_src_to_defines_and_uses src library
      in (fold set_add comb_define defines, fold set_add comb_use uses))"

text \<open>\<^verbatim>\<open>parse(file, library)\<close> on the graph \<open>g\<close>: \<open>filepath\<close> is the resolved path of the
  file and \<open>src\<close> its text.\<close>

definition parse :: "digraph \<Rightarrow> path \<Rightarrow> string \<Rightarrow> src_matches \<Rightarrow> digraph" where
  "parse g filepath library src =
     (let (provides, uses) = parse_file src library
      in parse_provides g filepath provides uses)"

subsection \<open>\<^verbatim>\<open>write_makefile_rules\<close>\<close>

text \<open>
  The output is the sequence of texts written, each with its stream. Two exceptions can
  end the loop: \<^verbatim>\<open>KeyError\<close> from \<^verbatim>\<open>nodes[du_dep]\<close> and \<^verbatim>\<open>ValueError\<close> from
  \<^verbatim>\<open>file.relative_to(root)\<close>; what was written before stays written. The path
  arithmetic of \<^verbatim>\<open>pathlib\<close> depends on the working directory, so
  \<^verbatim>\<open>str(file.relative_to(root))\<close> is the parameter \<open>rel\<close>, \<open>None\<close> where it raises.
\<close>

datatype stream = Stdout | Stderr

datatype error = KeyError node_id | ValueError path

type_synonym printed = "(stream \<times> string) list"

definition newline :: string where
  "newline = [CHR 0x0A]"

definition obj_file_of :: "(path \<Rightarrow> string option) \<Rightarrow> attrs \<Rightarrow> error + string" where
  "obj_file_of rel node =
     (case node of
        None \<Rightarrow> Inr []
      | Some file \<Rightarrow>
          (case rel file of
             None \<Rightarrow> Inl (ValueError file)
           | Some r \<Rightarrow> Inr (''obj/'' @ r @ ''.o'')))"

text \<open>The four lines of the design-unit rule; \<open>CHR 0x09\<close> is the tabulator.\<close>

definition design_unit_rule :: "string \<Rightarrow> string \<Rightarrow> printed" where
  "design_unit_rule design_unit obj_file =
     [(Stdout, ''du/'' @ design_unit @ '': '' @ obj_file @ newline),
      (Stdout, [CHR 0x09] @ ''@echo [DU] '' @ design_unit @ newline),
      (Stdout, [CHR 0x09] @ ''@mkdir -p $(@D)'' @ newline),
      (Stdout, [CHR 0x09] @ ''@touch $@'' @ newline)]"

text \<open>\<^verbatim>\<open>TESTBENCH_FILE_REGEX\<close> is an alternative of two literal patterns.\<close>

definition testbench_file :: "string \<Rightarrow> bool" where
  "testbench_file obj_file =
     (re_search (map Lit ''_tb.'') obj_file \<or> re_search (map Lit ''/tb_'') obj_file)"

text \<open>The loop over \<^verbatim>\<open>out_edges(n)\<close>: \<^verbatim>\<open>print("du/" + du_dep.replace("*", "ANY"), end=" ")\<close>
  for every dependency whose \<^verbatim>\<open>file\<close> differs.\<close>

fun print_deps :: "digraph \<Rightarrow> attrs \<Rightarrow> edge list \<Rightarrow> printed \<times> error option" where
  "print_deps g node [] = ([], None)"
| "print_deps g node ((n_from, du_dep) # es) =
     (case map_of (nodes g) du_dep of
        None \<Rightarrow> ([], Some (KeyError du_dep))
      | Some node_dep \<Rightarrow>
          (let out = (if node \<noteq> node_dep
                      then [(Stdout, ''du/'' @ replace_star du_dep @ '' '')] else []);
               (out', err) = print_deps g node es
           in (out @ out', err)))"

text \<open>The body of the loop over the nodes.\<close>

definition rule_for ::
  "digraph \<Rightarrow> (path \<Rightarrow> string option) \<Rightarrow> node_id \<Rightarrow> printed \<times> error option" where
  "rule_for g rel n =
     (case map_of (nodes g) n of
        None \<Rightarrow> ([], Some (KeyError n))
      | Some node \<Rightarrow>
          (let design_unit = replace_star n
           in case obj_file_of rel node of
                Inl e \<Rightarrow> ([], Some e)
              | Inr obj_file \<Rightarrow>
                  if \<not> str_in ''ANY'' design_unit \<and> obj_file = []
                  then ([(Stderr, ''Referenced design unit '' @ [CHR 0x27] @ design_unit @
                           [CHR 0x27] @ '' is not defined in any file. Ignoring.'' @ newline)],
                        None)
                  else
                    (let out = design_unit_rule design_unit obj_file
                     in if obj_file \<noteq> []
                        then
                          (let out = out @ [(Stdout, obj_file @ '': '')];
                               (deps, err) = print_deps g node (out_edges g n)
                           in case err of
                                Some e \<Rightarrow> (out @ deps, Some e)
                              | None \<Rightarrow>
                                  (out @ deps @ [(Stdout, newline)] @
                                   [(Stdout,
                                     (if testbench_file obj_file then ''OBJS_TB += ''
                                      else ''OBJS += '') @ obj_file @ newline)],
                                   None))
                        else (out, None))))"

fun rules_loop ::
  "digraph \<Rightarrow> (path \<Rightarrow> string option) \<Rightarrow> node_id list \<Rightarrow> printed \<times> error option" where
  "rules_loop g rel [] = ([], None)"
| "rules_loop g rel (n # ns) =
     (case rule_for g rel n of
        (out, Some e) \<Rightarrow> (out, Some e)
      | (out, None) \<Rightarrow> (let (out', err) = rules_loop g rel ns in (out @ out', err)))"

definition write_makefile_rules ::
  "digraph \<Rightarrow> (path \<Rightarrow> string option) \<Rightarrow> printed \<times> error option" where
  "write_makefile_rules g rel = rules_loop g rel (map fst (nodes g))"

section \<open>Instances and the class-level containers\<close>

text \<open>
  \<^verbatim>\<open>nodes = {}\<close> and \<^verbatim>\<open>edges = []\<close> are attributes of the class \<^verbatim>\<open>_DiGraph\<close>, created once;
  \<^verbatim>\<open>_DiGraph()\<close> allocates nothing. Through an instance, \<^verbatim>\<open>self.nodes\<close> always reads the
  class's dictionary. \<^verbatim>\<open>self.edges\<close> reads the class's list until \<^verbatim>\<open>remove_node\<close>
  assigns \<^verbatim>\<open>self.edges\<close>, which gives that instance an attribute of its own. The store
  holds the two class attributes and the instance attributes; instances are numbered.

  For one instance, \<open>view\<close> is the graph it observes, and each method acts on the store
  as the operation above acts on the view.
\<close>

record store =
  class_nodes :: "(node_id \<times> attrs) list"
  class_edges :: "edge list"
  inst_edges :: "nat \<Rightarrow> edge list option"

definition fresh_store :: store where
  "fresh_store = \<lparr>class_nodes = [], class_edges = [], inst_edges = (\<lambda>i. None)\<rparr>"

definition self_edges :: "store \<Rightarrow> nat \<Rightarrow> edge list" where
  "self_edges h i = (case inst_edges h i of None \<Rightarrow> class_edges h | Some es \<Rightarrow> es)"

definition view :: "store \<Rightarrow> nat \<Rightarrow> digraph" where
  "view h i = \<lparr>nodes = class_nodes h, edges = self_edges h i\<rparr>"

definition store_add_node :: "store \<Rightarrow> nat \<Rightarrow> node_id \<Rightarrow> attrs \<Rightarrow> store" where
  "store_add_node h i node kwargs = h\<lparr>class_nodes := nodes (add_node (view h i) node kwargs)\<rparr>"

text \<open>\<^verbatim>\<open>self.edges.append\<close> mutates the list that \<^verbatim>\<open>self.edges\<close> reads.\<close>

definition store_add_edge :: "store \<Rightarrow> nat \<Rightarrow> node_id \<Rightarrow> node_id \<Rightarrow> store" where
  "store_add_edge h i node_from node_to =
     (let g = add_edge (view h i) node_from node_to
      in case inst_edges h i of
           None \<Rightarrow> h\<lparr>class_nodes := nodes g, class_edges := edges g\<rparr>
         | Some es \<Rightarrow> h\<lparr>class_nodes := nodes g, inst_edges := (inst_edges h)(i \<mapsto> edges g)\<rparr>)"

definition store_remove_node :: "store \<Rightarrow> nat \<Rightarrow> node_id \<Rightarrow> store" where
  "store_remove_node h i node =
     (let g = remove_node (view h i) node
      in h\<lparr>class_nodes := nodes g, inst_edges := (inst_edges h)(i \<mapsto> edges g)\<rparr>)"

section \<open>Notions used by the statements\<close>

text \<open>The edges that one call of \<^verbatim>\<open>resolve\<close> appends, given the keys of the node
  dictionary in order.\<close>

definition resolved_edges :: "node_id list \<Rightarrow> edge list" where
  "resolved_edges ks = concat (map (\<lambda>u. map (Pair u) (filter (is_refering_to u) ks)) ks)"

text \<open>The edges that \<^verbatim>\<open>parse\<close> appends for the sets \<open>provides\<close> and \<open>uses\<close>.\<close>

definition parsed_edges :: "string list \<Rightarrow> string list \<Rightarrow> edge list" where
  "parsed_edges provides uses =
     concat (map (\<lambda>p. map (Pair p) (filter (\<lambda>u. u \<noteq> p) (map lower uses))) (map lower provides))"


text \<open>The wildcard nodes that \<^verbatim>\<open>parse\<close> adds for the first-level units among
  \<open>provides\<close>, and the node dictionary after \<^verbatim>\<open>parse\<close> as a function of the dictionary
  before: a defined unit has the file, a wildcard node has no attribute, a used unit keeps
  what it had.\<close>

definition wildcards :: "string list \<Rightarrow> node_id set" where
  "wildcards provides =
     {lower p @ ''.*'' | p. p \<in> set provides \<and> count_list (lower p) CHR ''.'' = 1}"






subsection \<open>Invariants of the graph\<close>

text \<open>Every edge joins two nodes of the node dictionary: \<^verbatim>\<open>add_edge\<close> adds the endpoints
  it misses, and \<^verbatim>\<open>remove_node\<close> drops the edges of the node it removes.\<close>

definition edges_closed :: "digraph \<Rightarrow> bool" where
  "edges_closed g = (\<forall>(a, b)\<in>set (edges g). has_node g a \<and> has_node g b)"

text \<open>Every identifier is in lower case: \<^verbatim>\<open>parse\<close> stores the results of \<^verbatim>\<open>lower()\<close>
  only, with \<^verbatim>\<open>.*\<close> appended for the wildcard nodes.\<close>

definition normalized :: "digraph \<Rightarrow> bool" where
  "normalized g = (\<forall>n\<in>fst ` set (nodes g). lower n = n)"

text \<open>The graphs that the methods of the parser build from the empty graph.\<close>

inductive reachable :: "digraph \<Rightarrow> bool" where
  init: "reachable empty_graph"
| parse: "reachable g \<Longrightarrow> reachable (parse g filepath library src)"
| resolve: "reachable g \<Longrightarrow> reachable (resolve g)"
| remove: "reachable g \<Longrightarrow> reachable (remove g units)"

text \<open>An identifier of the libraries that \<^verbatim>\<open>remove\<close> prunes by default.\<close>

definition std_unit :: "node_id \<Rightarrow> bool" where
  "std_unit n = (prefix ''ieee.'' n \<or> prefix ''std.'' n)"

subsection \<open>Example sources\<close>

text \<open>A file with the entity \<^verbatim>\<open>counter\<close> and its architectures \<^verbatim>\<open>rtl\<close> and \<^verbatim>\<open>behav\<close>; a
  file with the entity \<^verbatim>\<open>top\<close> that declares the component \<^verbatim>\<open>counter\<close>; a file with
  the package \<^verbatim>\<open>Util\<close> and its body; a file with the entity \<^verbatim>\<open>foo\<close>; a file that only has a
  use clause.\<close>

definition no_matches :: src_matches where
  "no_matches = \<lparr>package_def = [], entity_def = [], package_use = [], entity_use = [],
     package_body_def = [], arch_def = [], psl = []\<rparr>"

definition counter_src :: src_matches where
  "counter_src = no_matches\<lparr>entity_def := [''counter''],
     arch_def := [(''rtl'', ''counter''), (''behav'', ''counter'')]\<rparr>"

definition top_src :: src_matches where
  "top_src = no_matches\<lparr>entity_def := [''top''], entity_use := [([], ''counter'', [])]\<rparr>"

definition pkg_src :: src_matches where
  "pkg_src = no_matches\<lparr>package_def := [''Util''], package_body_def := [''Util'']\<rparr>"

definition foo_src :: src_matches where
  "foo_src = no_matches\<lparr>entity_def := [''foo'']\<rparr>"

definition use_only_src :: src_matches where
  "use_only_src = no_matches\<lparr>package_use := [(''ieee'', ''std_logic_1164'')]\<rparr>"

definition counter_graph :: digraph where
  "counter_graph =
     parse (parse empty_graph ''/prj/vhdl/counter.vhd'' ''work'' counter_src)
       ''/prj/vhdl/top.vhd'' ''work'' top_src"

text \<open>A file with the entity \<^verbatim>\<open>Alu\<close> that uses packages of \<open>ieee\<close>, \<open>std\<close> and
  \<open>work\<close>.\<close>

definition lib_user_src :: src_matches where
  "lib_user_src = no_matches\<lparr>entity_def := [''Alu''],
     package_use := [(''ieee'', ''std_logic_1164''), (''std'', ''textio''), (''work'', ''util'')]\<rparr>"

definition lib_user_graph :: digraph where
  "lib_user_graph = parse empty_graph ''/prj/vhdl/alu.vhd'' ''work'' lib_user_src"

text \<open>\<^verbatim>\<open>str(file.relative_to(root))\<close> for the root \<^verbatim>\<open>/prj\<close>.\<close>

definition rel_prj :: "path \<Rightarrow> string option" where
  "rel_prj file = (if prefix ''/prj/'' file then Some (drop 5 file) else None)"

section \<open>Properties of the graph operations\<close>

lemma has_node_add_node: "has_node (add_node g n kw) m = (m = n \<or> has_node g m)"
proof -
  have "fst ` set (AList.update n kw (nodes g)) = set (map fst (AList.update n kw (nodes g)))"
    by simp
  also have "\<dots> = insert n (fst ` set (nodes g))"
    by (simp only: AList.update_keys) auto
  finally show ?thesis by (auto simp: has_node_def add_node_def)
qed

lemma has_node_edges_update [simp]: "has_node (g\<lparr>edges := es\<rparr>) m = has_node g m"
  by (simp add: has_node_def)

lemma edges_add_node: "edges (add_node g n kw) = edges g"
  by (simp add: add_node_def)

lemma ensure_node_present: "has_node g n \<Longrightarrow> ensure_node g n = g"
  by (simp add: ensure_node_def)

lemma has_node_ensure_node: "has_node (ensure_node g n) m = (m = n \<or> has_node g m)"
  by (auto simp: ensure_node_def has_node_add_node)

lemma edges_ensure_node: "edges (ensure_node g n) = edges g"
  by (simp add: ensure_node_def edges_add_node)

lemma edges_add_edge: "edges (add_edge g a b) = edges g @ [(a, b)]"
  by (simp add: add_edge_def Let_def edges_ensure_node)

lemma has_node_add_edge: "has_node (add_edge g a b) m = (m = a \<or> m = b \<or> has_node g m)"
  by (auto simp: add_edge_def Let_def has_node_ensure_node)

lemma add_edge_present:
  "has_node g a \<Longrightarrow> has_node g b \<Longrightarrow> add_edge g a b = g\<lparr>edges := edges g @ [(a, b)]\<rparr>"
  by (simp add: add_edge_def Let_def ensure_node_present)

subsection \<open>\<^verbatim>\<open>parse\<close> in closed form\<close>

lemma has_node_map_of: "has_node g n = (map_of (nodes g) n \<noteq> None)"
  by (simp add: has_node_def map_of_eq_None_iff)




lemma edges_parse_uses:
  "edges (parse_uses g p uses) = edges g @ map (Pair p) (filter (\<lambda>u. u \<noteq> p) (map lower uses))"
  by (induction uses arbitrary: g) (auto simp: Let_def edges_add_edge)

lemma has_node_parse_uses: "has_node g n \<Longrightarrow> has_node (parse_uses g p uses) n"
  by (induction uses arbitrary: g) (auto simp: Let_def has_node_add_edge)


lemma edges_parse_provides:
  "edges (parse_provides g f provides uses) = edges g @ parsed_edges provides uses"
  by (induction provides arbitrary: g)
     (auto simp: Let_def parsed_edges_def edges_parse_uses edges_add_node)

lemma set_parsed_edges:
  "set (parsed_edges provides uses) =
     {(p, u). p \<in> lower ` set provides \<and> u \<in> lower ` set uses \<and> p \<noteq> u}"
  by (auto simp: parsed_edges_def)

subsection \<open>The node dictionary after \<^verbatim>\<open>parse\<close>\<close>

lemma wildcards_Nil [simp]: "wildcards [] = {}"
  by (simp add: wildcards_def)








subsection \<open>\<^verbatim>\<open>resolve\<close> in closed form\<close>

text \<open>Every key of the copy is a node of the live graph, so \<^verbatim>\<open>add_edge\<close> never adds a
  node during \<^verbatim>\<open>resolve\<close>: the call only appends edges.\<close>

lemma resolve_inner_present:
  "has_node g u \<Longrightarrow> \<forall>v\<in>set vs. has_node g v \<Longrightarrow>
   resolve_inner u vs g = g\<lparr>edges := edges g @ map (Pair u) (filter (is_refering_to u) vs)\<rparr>"
proof (induction vs arbitrary: g)
  case Nil
  then show ?case by simp
next
  case (Cons v vs)
  show ?case
  proof (cases "is_refering_to u v")
    case True
    let ?g = "g\<lparr>edges := edges g @ [(u, v)]\<rparr>"
    have e: "add_edge g u v = ?g" using Cons.prems by (simp add: add_edge_present)
    have "has_node ?g u" "\<forall>w\<in>set vs. has_node ?g w"
      using Cons.prems by simp_all
    from Cons.IH[OF this] show ?thesis using True e by simp
  next
    case False
    then show ?thesis using Cons by simp
  qed
qed

lemma resolve_outer_present:
  "\<forall>u\<in>set us. has_node g u \<Longrightarrow> \<forall>v\<in>set vs. has_node g v \<Longrightarrow>
   resolve_outer us vs g =
     g\<lparr>edges := edges g @ concat (map (\<lambda>u. map (Pair u) (filter (is_refering_to u) vs)) us)\<rparr>"
proof (induction us arbitrary: g)
  case Nil
  then show ?case by simp
next
  case (Cons u us)
  let ?g = "g\<lparr>edges := edges g @ map (Pair u) (filter (is_refering_to u) vs)\<rparr>"
  have e: "resolve_inner u vs g = ?g"
    using Cons.prems by (simp add: resolve_inner_present)
  have "\<forall>w\<in>set us. has_node ?g w" "\<forall>w\<in>set vs. has_node ?g w"
    using Cons.prems by simp_all
  from Cons.IH[OF this] show ?case using e by simp
qed

lemma resolve_eq:
  "resolve g = g\<lparr>edges := edges g @ resolved_edges (map fst (nodes g))\<rparr>"
  unfolding resolve_def Let_def copy_def resolved_edges_def
  by (rule resolve_outer_present) (simp_all add: has_node_def)

lemma set_resolved_edges:
  "set (resolved_edges ks) = {(u, v). u \<in> set ks \<and> v \<in> set ks \<and> is_refering_to u v}"
  by (auto simp: resolved_edges_def)


subsection \<open>\<^verbatim>\<open>remove\<close> in closed form\<close>

lemma nodes_remove_loop:
  "nodes (remove_loop units ns g) =
     filter (\<lambda>(k, kw). \<not> (k \<in> set ns \<and> in_units units k)) (nodes g)"
proof (induction ns arbitrary: g)
  case Nil
  then show ?case by simp
next
  case (Cons n ns)
  show ?case
    by (auto simp: Cons.IH remove_node_def AList.delete_eq intro!: filter_cong)
qed

lemma edges_remove_loop:
  "edges (remove_loop units ns g) =
     filter (\<lambda>(a, b). \<not> (a \<in> set ns \<and> in_units units a) \<and> \<not> (b \<in> set ns \<and> in_units units b))
       (edges g)"
proof (induction ns arbitrary: g)
  case Nil
  then show ?case by simp
next
  case (Cons n ns)
  show ?case
    by (auto simp: Cons.IH remove_node_def intro!: filter_cong)
qed

lemma nodes_remove:
  "nodes (remove g units) = filter (\<lambda>(k, kw). \<not> in_units units k) (nodes g)"
  unfolding remove_def copy_def nodes_remove_loop
  by (rule filter_cong) (auto simp: image_iff)

lemma edges_remove:
  "edges_closed g \<Longrightarrow>
   edges (remove g units) = filter (\<lambda>(a, b). \<not> in_units units a \<and> \<not> in_units units b) (edges g)"
  unfolding remove_def copy_def edges_remove_loop
  by (rule filter_cong) (auto simp: edges_closed_def has_node_def)

lemma in_units_std: "in_units [''ieee'', ''std''] n = std_unit n"
  by (simp add: in_units_def std_unit_def)

subsection \<open>The invariants hold in every graph the parser builds\<close>

lemma edges_closed_empty: "edges_closed empty_graph"
  by (simp add: edges_closed_def empty_graph_def)

lemma edges_closed_add_node: "edges_closed g \<Longrightarrow> edges_closed (add_node g n kw)"
  by (auto simp: edges_closed_def edges_add_node has_node_add_node)

lemma edges_closed_add_edge: "edges_closed g \<Longrightarrow> edges_closed (add_edge g a b)"
  by (auto simp: edges_closed_def edges_add_edge has_node_add_edge)

lemma has_node_remove_node: "has_node (remove_node g n) m = (m \<noteq> n \<and> has_node g m)"
  by (force simp: has_node_def remove_node_def AList.delete_eq)

lemma edges_closed_remove_node: "edges_closed g \<Longrightarrow> edges_closed (remove_node g n)"
  unfolding edges_closed_def has_node_remove_node
  by (auto simp: remove_node_def)

lemma edges_closed_parse_uses: "edges_closed g \<Longrightarrow> edges_closed (parse_uses g p uses)"
  by (induction uses arbitrary: g) (auto simp: Let_def edges_closed_add_edge)

lemma edges_closed_parse_provides:
  "edges_closed g \<Longrightarrow> edges_closed (parse_provides g f provides uses)"
  by (induction provides arbitrary: g)
     (auto simp: Let_def edges_closed_add_node edges_closed_parse_uses)

lemma edges_closed_parse: "edges_closed g \<Longrightarrow> edges_closed (parse g f library src)"
  by (cases "parse_file src library") (simp add: parse_def edges_closed_parse_provides)

lemma edges_closed_resolve: "edges_closed g \<Longrightarrow> edges_closed (resolve g)"
  by (auto simp: edges_closed_def resolve_eq set_resolved_edges has_node_def)

lemma has_node_remove: "has_node (remove g units) m = (has_node g m \<and> \<not> in_units units m)"
  by (force simp: has_node_def nodes_remove)

lemma edges_closed_remove: "edges_closed g \<Longrightarrow> edges_closed (remove g units)"
  unfolding edges_closed_def has_node_remove
  by (auto simp: edges_remove edges_closed_def)

lemma letters_disjoint: "list_all (\<lambda>d. d \<notin> set upper_letters) lower_letters"
  by code_simp

lemma letters_length: "length upper_letters = length lower_letters"
  by (simp add: upper_letters_def lower_letters_def)

lemma lower_char_cases: "lower_char c = c \<or> lower_char c \<in> set lower_letters"
  by (auto simp: lower_char_def split: option.splits dest!: map_of_SomeD set_zip_rightD)

lemma lower_char_fix: "d \<in> set lower_letters \<Longrightarrow> lower_char d = d"
proof -
  assume "d \<in> set lower_letters"
  then have "d \<notin> set upper_letters" using letters_disjoint by (simp add: list_all_iff)
  then have "map_of (zip upper_letters lower_letters) d = None"
    by (simp add: map_of_zip_is_None[OF letters_length])
  then show ?thesis by (simp add: lower_char_def)
qed

lemma lower_char_idem: "lower_char (lower_char c) = lower_char c"
  using lower_char_cases[of c] lower_char_fix[of "lower_char c"] by auto



lemma lower_char_A: "lower_char CHR ''A'' \<noteq> CHR ''A''"
  by code_simp

lemma lower_idem: "lower (lower s) = lower s"
  by (simp add: lower_def lower_char_idem)

lemma lower_append: "lower (s @ t) = lower s @ lower t"
  by (simp add: lower_def)

lemma lower_dot_star: "lower ''.*'' = ''.*''"
  by code_simp

lemma normalized_empty: "normalized empty_graph"
  by (simp add: normalized_def empty_graph_def)

lemma normalized_iff: "normalized g = (\<forall>n. has_node g n \<longrightarrow> lower n = n)"
  by (auto simp: normalized_def has_node_def)

lemma normalized_add_node: "normalized g \<Longrightarrow> lower n = n \<Longrightarrow> normalized (add_node g n kw)"
  by (auto simp: normalized_iff has_node_add_node)

lemma normalized_add_edge:
  "normalized g \<Longrightarrow> lower a = a \<Longrightarrow> lower b = b \<Longrightarrow> normalized (add_edge g a b)"
  by (auto simp: normalized_iff has_node_add_edge)

lemma normalized_parse_uses:
  "normalized g \<Longrightarrow> lower p = p \<Longrightarrow> normalized (parse_uses g p uses)"
  by (induction uses arbitrary: g) (auto simp: Let_def normalized_add_edge lower_idem)

lemma normalized_parse_provides:
  "normalized g \<Longrightarrow> normalized (parse_provides g f provides uses)"
  by (induction provides arbitrary: g)
     (auto simp: Let_def normalized_add_node normalized_parse_uses lower_idem lower_append
        lower_dot_star)

lemma normalized_parse: "normalized g \<Longrightarrow> normalized (parse g f library src)"
  by (cases "parse_file src library") (simp add: parse_def normalized_parse_provides)

lemma normalized_resolve: "normalized g \<Longrightarrow> normalized (resolve g)"
  by (simp add: normalized_def resolve_eq)

lemma normalized_remove: "normalized g \<Longrightarrow> normalized (remove g units)"
  by (auto simp: normalized_def nodes_remove)

lemma reachable_invariants: "reachable g \<Longrightarrow> edges_closed g \<and> normalized g"
  by (induction rule: reachable.induct)
     (simp_all add: edges_closed_empty normalized_empty edges_closed_parse normalized_parse
        edges_closed_resolve normalized_resolve edges_closed_remove normalized_remove)

subsection \<open>The extractor's sets\<close>

lemma set_fold_set_add: "set (fold (\<lambda>x. set_add (f x)) xs acc) = f ` set xs \<union> set acc"
  by (induction xs arbitrary: acc) (auto simp: set_add_def)

lemma set_fold_set_add_id: "set (fold set_add xs acc) = set xs \<union> set acc"
  by (induction xs arbitrary: acc) (auto simp: set_add_def)

lemma fold_pair_set_add:
  "fold (\<lambda>x (d, u). (set_add (f x) d, set_add (h x) u)) xs (d0, u0) =
     (fold (\<lambda>x. set_add (f x)) xs d0, fold (\<lambda>x. set_add (h x)) xs u0)"
  by (induction xs arbitrary: d0 u0) auto

lemma set_parse_src_to_defines:
  "set (parse_src_to_defines src library) =
     (\<lambda>name. library @ ''.'' @ name) ` (set (package_def src) \<union> set (entity_def src))"
  by (auto simp: parse_src_to_defines_def Let_def set_fold_set_add)

lemma set_parse_src_to_uses:
  "set (parse_src_to_uses src) =
     (\<lambda>(library, name). library @ ''.'' @ name) ` set (package_use src) \<union>
     (\<lambda>(library, name, arch).
        if arch \<noteq> [] then or_star library @ ''.'' @ name @ ''.'' @ arch
        else or_star library @ ''.'' @ name) ` set (entity_use src)"
proof -
  have a: "(\<lambda>(library, name). set_add (library @ ''.'' @ name)) =
           (\<lambda>x. set_add ((\<lambda>(library, name). library @ ''.'' @ name) x))"
    by (auto simp: fun_eq_iff)
  have b: "(\<lambda>(library, name, arch).
              if arch \<noteq> [] then set_add (or_star library @ ''.'' @ name @ ''.'' @ arch)
              else set_add (or_star library @ ''.'' @ name)) =
           (\<lambda>x. set_add ((\<lambda>(library, name, arch).
              if arch \<noteq> [] then or_star library @ ''.'' @ name @ ''.'' @ arch
              else or_star library @ ''.'' @ name) x))"
    by (auto simp: fun_eq_iff)
  show ?thesis
    unfolding parse_src_to_uses_def Let_def a b set_fold_set_add by auto
qed

lemma parse_src_to_defines_and_uses_eq:
  "parse_src_to_defines_and_uses src library =
     (fold (\<lambda>x. set_add ((\<lambda>(name, entity, arch).
              library @ ''.'' @ entity @ ''.'' @ or_star arch @ ''.'' @ name) x)) (psl src)
        (fold (\<lambda>x. set_add ((\<lambda>(name, entity). library @ ''.'' @ entity @ ''.'' @ name) x)) (arch_def src)
          (fold (\<lambda>name. set_add (library @ ''.'' @ name @ ''.body'')) (package_body_def src) [])),
      fold (\<lambda>x. set_add ((\<lambda>(name, entity, arch). ''*.'' @ entity @ ''.'' @ or_star arch) x)) (psl src)
        (fold (\<lambda>x. set_add ((\<lambda>(name, entity). library @ ''.'' @ entity) x)) (arch_def src)
          (fold (\<lambda>name. set_add (library @ ''.'' @ name)) (package_body_def src) [])))"
proof -
  have a: "(\<lambda>(name, entity) (defines, uses).
              (set_add (library @ ''.'' @ entity @ ''.'' @ name) defines,
               set_add (library @ ''.'' @ entity) uses)) =
           (\<lambda>x (d, u). (set_add ((\<lambda>(name, entity). library @ ''.'' @ entity @ ''.'' @ name) x) d,
                        set_add ((\<lambda>(name, entity). library @ ''.'' @ entity) x) u))"
    by (auto simp: fun_eq_iff)
  have b: "(\<lambda>(name, entity, arch) (defines, uses).
              (set_add (library @ ''.'' @ entity @ ''.'' @ or_star arch @ ''.'' @ name) defines,
               set_add (''*.'' @ entity @ ''.'' @ or_star arch) uses)) =
           (\<lambda>x (d, u). (set_add ((\<lambda>(name, entity, arch).
                           library @ ''.'' @ entity @ ''.'' @ or_star arch @ ''.'' @ name) x) d,
                        set_add ((\<lambda>(name, entity, arch). ''*.'' @ entity @ ''.'' @ or_star arch) x) u))"
    by (auto simp: fun_eq_iff)
  show ?thesis
    unfolding parse_src_to_defines_and_uses_def Let_def a b fold_pair_set_add ..
qed

lemma set_defines:
  "set (fst (parse_file src library)) =
     (\<lambda>name. library @ ''.'' @ name) ` (set (package_def src) \<union> set (entity_def src)) \<union>
     (\<lambda>name. library @ ''.'' @ name @ ''.body'') ` set (package_body_def src) \<union>
     (\<lambda>(name, entity). library @ ''.'' @ entity @ ''.'' @ name) ` set (arch_def src) \<union>
     (\<lambda>(name, entity, arch). library @ ''.'' @ entity @ ''.'' @ or_star arch @ ''.'' @ name) `
       set (psl src)"
  unfolding parse_file_def Let_def parse_src_to_defines_and_uses_eq
  by (simp add: set_fold_set_add_id set_fold_set_add set_parse_src_to_defines) blast

lemma set_uses:
  "set (snd (parse_file src library)) =
     set (parse_src_to_uses src) \<union>
     (\<lambda>name. library @ ''.'' @ name) ` set (package_body_def src) \<union>
     (\<lambda>(name, entity). library @ ''.'' @ entity) ` set (arch_def src) \<union>
     (\<lambda>(name, entity, arch). ''*.'' @ entity @ ''.'' @ or_star arch) ` set (psl src)"
  unfolding parse_file_def Let_def parse_src_to_defines_and_uses_eq
  by (simp add: set_fold_set_add_id set_fold_set_add) blast

lemma length_lower [simp]: "length (lower s) = length s"
  by (simp add: lower_def)

lemma edges_parse:
  "edges (parse g filepath library src) =
     edges g @ parsed_edges (fst (parse_file src library)) (snd (parse_file src library))"
  by (simp add: parse_def edges_parse_provides split: prod.splits)

lemma is_refering_to_neq: "is_refering_to u v \<Longrightarrow> u \<noteq> v"
  by (auto simp: is_refering_to_def split: if_splits)

subsection \<open>Defined units never collide with wildcard nodes\<close>







subsection \<open>Rule emission\<close>

lemma lower_fixed_no_A: "lower n = n \<Longrightarrow> CHR ''A'' \<notin> set n"
proof
  assume l: "lower n = n" and a: "CHR ''A'' \<in> set n"
  from l have "map lower_char n = map (\<lambda>c. c) n" by (simp add: lower_def)
  then have "\<forall>c\<in>set n. lower_char c = c" by (simp only: map_eq_conv)
  with a have "lower_char CHR ''A'' = CHR ''A''" by blast
  then show False using lower_char_A by simp
qed


lemma replace_star_Cons:
  "replace_star (c # s) = (if c = CHR ''*'' then ''ANY'' @ replace_star s else c # replace_star s)"
  by (simp add: replace_star_def)

lemma replace_star_Nil [simp]: "replace_star [] = []"
  by (simp add: replace_star_def)

lemma replace_star_inj:
  "CHR ''A'' \<notin> set s \<Longrightarrow> CHR ''A'' \<notin> set t \<Longrightarrow> replace_star s = replace_star t \<Longrightarrow> s = t"
proof (induction s arbitrary: t)
  case Nil
  then show ?case by (cases t) (auto simp: replace_star_Cons split: if_splits)
next
  case (Cons c s)
  then show ?case by (cases t) (auto simp: replace_star_Cons split: if_splits)
qed


lemma str_in_ANY_star: "CHR ''*'' \<in> set n \<Longrightarrow> str_in ''ANY'' (replace_star n)"
  by (induction n) (auto simp: replace_star_Cons)

lemma print_deps_closed:
  "\<forall>(a, d)\<in>set es. has_node g d \<Longrightarrow>
   print_deps g node es =
     (map (\<lambda>d. (Stdout, ''du/'' @ replace_star d @ '' ''))
        (filter (\<lambda>d. map_of (nodes g) d \<noteq> Some node) (map snd es)), None)"
proof (induction es)
  case Nil
  then show ?case by simp
next
  case (Cons e es)
  obtain a d where e: "e = (a, d)" by (cases e)
  from Cons.prems e obtain kw where kw: "map_of (nodes g) d = Some kw"
    by (auto simp: has_node_map_of)
  from Cons show ?case by (auto simp: e kw)
qed

lemma token_neq_line: "''du/'' @ a @ '' '' \<noteq> ''du/'' @ b @ [CHR 0x0A]"
proof
  assume "''du/'' @ a @ '' '' = ''du/'' @ b @ [CHR 0x0A]"
  then have "last (a @ '' '') = last (b @ [CHR 0x0A])" by simp
  then show False by simp
qed

lemma token_inj:
  "CHR ''A'' \<notin> set a \<Longrightarrow> CHR ''A'' \<notin> set b \<Longrightarrow>
   ''du/'' @ replace_star a @ '' '' = ''du/'' @ replace_star b @ '' '' \<Longrightarrow> a = b"
  by (simp add: replace_star_inj)

subsection \<open>The examples, evaluated\<close>

lemmas example_defs =
  no_matches_def counter_src_def top_src_def pkg_src_def use_only_src_def foo_src_def
  empty_graph_def

lemma counter_graph_eq:
  "counter_graph =
     \<lparr>nodes =
        [(''work.counter.rtl'', Some ''/prj/vhdl/counter.vhd''),
         (''work.counter'', Some ''/prj/vhdl/counter.vhd''),
         (''work.counter.behav'', Some ''/prj/vhdl/counter.vhd''),
         (''work.counter.*'', None), (''work.top'', Some ''/prj/vhdl/top.vhd''),
         (''*.counter'', None), (''work.top.*'', None)],
      edges =
        [(''work.counter.rtl'', ''work.counter''),
         (''work.counter.behav'', ''work.counter''),
         (''work.top'', ''*.counter'')]\<rparr>"
  by code_simp




lemma lib_user_graph_eq:
  "lib_user_graph =
     \<lparr>nodes = [(''work.alu'', Some ''/prj/vhdl/alu.vhd''), (''work.util'', None),
               (''std.textio'', None), (''ieee.std_logic_1164'', None), (''work.alu.*'', None)],
      edges = [(''work.alu'', ''work.util''), (''work.alu'', ''std.textio''),
               (''work.alu'', ''ieee.std_logic_1164'')]\<rparr>"
  by code_simp

lemma lower_examples:
  "lower ''work.counter'' = ''work.counter''" "lower ''work.counter.rtl'' = ''work.counter.rtl''"
  "lower ''work.counter.behav'' = ''work.counter.behav''"
  "lower ''work.counter.*'' = ''work.counter.*''" "lower ''work.top'' = ''work.top''"
  "lower ''work.top.*'' = ''work.top.*''" "lower ''*.counter'' = ''*.counter''"
  by code_simp+

lemma counter_graph_inv: "edges_closed counter_graph" "normalized counter_graph"
  by (simp_all add: counter_graph_eq edges_closed_def normalized_def has_node_def lower_examples)


subsection \<open>One instance in the store\<close>

lemma view_store_add_node: "view (store_add_node h i n kw) i = add_node (view h i) n kw"
  by (simp add: store_add_node_def view_def self_edges_def add_node_def split: option.splits)

lemma view_store_add_edge: "view (store_add_edge h i a b) i = add_edge (view h i) a b"
  by (cases "inst_edges h i")
     (simp_all add: store_add_edge_def view_def self_edges_def Let_def)

lemma view_store_remove_node: "view (store_remove_node h i n) i = remove_node (view h i) n"
  by (simp add: store_remove_node_def view_def self_edges_def Let_def split: option.splits)

lemma view_fresh_store: "view fresh_store i = empty_graph"
  by (simp add: view_def fresh_store_def self_edges_def empty_graph_def)

lemma replace_star_examples:
  "replace_star ''work.counter'' = ''work.counter''"
  "replace_star ''work.counter.rtl'' = ''work.counter.rtl''"
  "replace_star ''*.counter'' = ''ANY.counter''"
  by code_simp+


section \<open>The claims\<close>




text \<open>
  Claim C2. \<^verbatim>\<open>resolve\<close> is idempotent: on a graph on which \<^verbatim>\<open>resolve\<close> has been called
  once, a second call adds no edge that is not already there, and leaves the nodes as
  they are. What the second call appends to the edge list are duplicates of edges that
  the list already holds.
\<close>

theorem resolve_idempotent:
  "nodes (resolve (resolve g)) = nodes (resolve g) \<and>
   set (edges (resolve (resolve g))) = set (edges (resolve g)) \<and>
   (\<exists>es. edges (resolve (resolve g)) = edges (resolve g) @ es \<and>
      set es \<subseteq> set (edges (resolve g)))"
  by (simp add: resolve_eq)

text \<open>
  Claim C10. A file whose extraction yields an empty set of defined units leaves the graph
  exactly as it was: no node, no edge and no wildcard node comes from the units it uses.
\<close>

theorem parse_use_only:
  "fst (parse_file src library) = [] \<Longrightarrow> parse g filepath library src = g"
  by (cases "parse_file src library") (simp add: parse_def)

theorem parse_use_only_witness:
  "fst (parse_file use_only_src ''work'') = [] \<and>
   parse counter_graph ''/prj/vhdl/pkg_user.vhd'' ''work'' use_only_src = counter_graph"
proof -
  have h: "fst (parse_file use_only_src ''work'') = []"
    by code_simp
  from parse_use_only[OF h] show ?thesis using h by simp
qed

text \<open>
  Claim C8. A second-level unit depends on its first-level unit: for every package body
  \<open>P\<close> that a parsed file of library \<open>lib\<close> defines, the graph has the edge from
  \<open>lib.p.body\<close> to \<open>lib.p\<close>, and for every architecture \<open>A\<close> of \<open>E\<close> it defines, the edge
  from \<open>lib.e.a\<close> to \<open>lib.e\<close> (identifiers in lower case).
\<close>

theorem second_level_depends_on_parent:
  "(\<forall>name\<in>set (package_body_def src).
      (lower (library @ ''.'' @ name @ ''.body''), lower (library @ ''.'' @ name))
        \<in> set (edges (parse g filepath library src))) \<and>
   (\<forall>(name, entity)\<in>set (arch_def src).
      (lower (library @ ''.'' @ entity @ ''.'' @ name), lower (library @ ''.'' @ entity))
        \<in> set (edges (parse g filepath library src)))"
proof (intro conjI ballI)
  fix name assume n: "name \<in> set (package_body_def src)"
  let ?p = "library @ ''.'' @ name @ ''.body''" and ?u = "library @ ''.'' @ name"
  have "?p \<in> set (fst (parse_file src library))" using n by (auto simp: set_defines)
  moreover have "?u \<in> set (snd (parse_file src library))" using n by (auto simp: set_uses)
  moreover have "lower ?p \<noteq> lower ?u"
  proof
    assume "lower ?p = lower ?u"
    then have "length (lower ?p) = length (lower ?u)" by simp
    then show False by simp
  qed
  ultimately show "(lower ?p, lower ?u) \<in> set (edges (parse g filepath library src))"
    by (auto simp: edges_parse set_parsed_edges)
next
  fix x assume x: "x \<in> set (arch_def src)"
  obtain name entity where xe: "x = (name, entity)" by (cases x)
  let ?p = "library @ ''.'' @ entity @ ''.'' @ name" and ?u = "library @ ''.'' @ entity"
  have "?p \<in> set (fst (parse_file src library))" using x xe by (force simp: set_defines)
  moreover have "?u \<in> set (snd (parse_file src library))" using x xe by (force simp: set_uses)
  moreover have "lower ?p \<noteq> lower ?u"
  proof
    assume "lower ?p = lower ?u"
    then have "length (lower ?p) = length (lower ?u)" by simp
    then show False by simp
  qed
  ultimately show "case x of (name, entity) \<Rightarrow>
      (lower (library @ ''.'' @ entity @ ''.'' @ name), lower (library @ ''.'' @ entity))
        \<in> set (edges (parse g filepath library src))"
    by (auto simp: xe edges_parse set_parsed_edges)
qed

theorem second_level_depends_on_parent_witness:
  "''Util'' \<in> set (package_body_def pkg_src) \<and>
   (''work.util.body'', ''work.util'')
     \<in> set (edges (parse empty_graph ''/prj/vhdl/util.vhd'' ''work'' pkg_src)) \<and>
   (''rtl'', ''counter'') \<in> set (arch_def counter_src) \<and>
   (''work.counter.rtl'', ''work.counter'')
     \<in> set (edges (parse empty_graph ''/prj/vhdl/counter.vhd'' ''work'' counter_src))"
proof -
  have a: "''Util'' \<in> set (package_body_def pkg_src)"
    and b: "(''rtl'', ''counter'') \<in> set (arch_def counter_src)"
    by (simp_all add: example_defs)
  have l: "lower (''work'' @ ''.'' @ ''Util'' @ ''.body'') = ''work.util.body''"
    "lower (''work'' @ ''.'' @ ''Util'') = ''work.util''"
    "lower (''work'' @ ''.'' @ ''counter'' @ ''.'' @ ''rtl'') = ''work.counter.rtl''"
    "lower (''work'' @ ''.'' @ ''counter'') = ''work.counter''"
    by code_simp+
  from second_level_depends_on_parent[of pkg_src "''work''" empty_graph "''/prj/vhdl/util.vhd''"] a
  have c: "(''work.util.body'', ''work.util'')
     \<in> set (edges (parse empty_graph ''/prj/vhdl/util.vhd'' ''work'' pkg_src))"
    unfolding l[symmetric] by blast
  from second_level_depends_on_parent[of counter_src "''work''" empty_graph "''/prj/vhdl/counter.vhd''"] b
  have d: "(''work.counter.rtl'', ''work.counter'')
     \<in> set (edges (parse empty_graph ''/prj/vhdl/counter.vhd'' ''work'' counter_src))"
    unfolding l[symmetric] by blast
  show ?thesis using a b c d by blast
qed

text \<open>
  Claim C4. No self-loop is ever created: the edges that \<^verbatim>\<open>parse\<close> appends for a file,
  and the edges that \<^verbatim>\<open>resolve\<close> appends, all have a consumer different from the
  dependency. In particular a file that defines and uses the same unit gives that unit
  no edge to itself.
\<close>

theorem no_self_loops_created:
  "(\<exists>es. edges (parse g filepath library src) = edges g @ es \<and> (\<forall>(a, b)\<in>set es. a \<noteq> b)) \<and>
   (\<exists>es. edges (resolve g) = edges g @ es \<and> (\<forall>(a, b)\<in>set es. a \<noteq> b))"
proof
  show "\<exists>es. edges (parse g filepath library src) = edges g @ es \<and> (\<forall>(a, b)\<in>set es. a \<noteq> b)"
    unfolding edges_parse by (auto simp: set_parsed_edges)
  show "\<exists>es. edges (resolve g) = edges g @ es \<and> (\<forall>(a, b)\<in>set es. a \<noteq> b)"
    unfolding resolve_eq by (auto simp: set_resolved_edges dest: is_refering_to_neq)
qed

theorem no_self_loops_created_witness:
  "''work.counter'' \<in> set (fst (parse_file counter_src ''work'')) \<and>
   ''work.counter'' \<in> set (snd (parse_file counter_src ''work'')) \<and>
   (''work.counter'', ''work.counter'')
     \<notin> set (edges (parse empty_graph ''/prj/vhdl/counter.vhd'' ''work'' counter_src)) \<and>
   has_node counter_graph ''*.counter'' \<and>
   (''*.counter'', ''*.counter'') \<notin> set (edges (resolve counter_graph))"
proof -
  have a: "''work.counter'' \<in> set (fst (parse_file counter_src ''work''))"
    and b: "''work.counter'' \<in> set (snd (parse_file counter_src ''work''))"
    by code_simp+
  have e: "edges empty_graph = []" by (simp add: empty_graph_def)
  have c: "has_node counter_graph ''*.counter''"
    and d: "(''*.counter'', ''*.counter'') \<notin> set (edges counter_graph)"
    by (simp_all add: counter_graph_eq has_node_def)
  from no_self_loops_created[of empty_graph "''/prj/vhdl/counter.vhd''" "''work''" counter_src]
  have p: "\<forall>(a, b)\<in>set (edges (parse empty_graph ''/prj/vhdl/counter.vhd'' ''work'' counter_src)). a \<noteq> b"
    unfolding e by auto
  from no_self_loops_created[of counter_graph "''/prj/vhdl/counter.vhd''" "''work''" counter_src]
  obtain es where "edges (resolve counter_graph) = edges counter_graph @ es"
    and "\<forall>(a, b)\<in>set es. a \<noteq> b"
    by blast
  then have r: "(''*.counter'', ''*.counter'') \<notin> set (edges (resolve counter_graph))"
    using d by auto
  show ?thesis using a b c p r by blast
qed

text \<open>
  Claim C5. Pruning is complete: after \<^verbatim>\<open>remove\<close> with the libraries \<open>ieee\<close> and \<open>std\<close>,
  no node whose identifier starts with \<open>ieee.\<close> or \<open>std.\<close> is left in the node
  dictionary and no edge has such a node as an endpoint; the other nodes, with their
  attributes and order, and the edges between them are those of the graph before. The
  graph is one whose edges join nodes of the dictionary, as every graph built by the
  methods is (\<open>reachable_invariants\<close>).
\<close>

theorem remove_prunes:
  assumes "edges_closed g"
  shows "(\<forall>n. has_node (remove g [''ieee'', ''std'']) n \<longrightarrow> \<not> std_unit n) \<and>
         (\<forall>(a, b)\<in>set (edges (remove g [''ieee'', ''std''])). \<not> std_unit a \<and> \<not> std_unit b) \<and>
         nodes (remove g [''ieee'', ''std'']) = filter (\<lambda>(n, kw). \<not> std_unit n) (nodes g) \<and>
         edges (remove g [''ieee'', ''std'']) =
           filter (\<lambda>(a, b). \<not> std_unit a \<and> \<not> std_unit b) (edges g)"
  using assms by (auto simp: nodes_remove edges_remove in_units_std has_node_def)

theorem remove_prunes_witness:
  "edges_closed lib_user_graph \<and>
   has_node lib_user_graph ''ieee.std_logic_1164'' \<and> std_unit ''ieee.std_logic_1164'' \<and>
   \<not> has_node (remove lib_user_graph [''ieee'', ''std'']) ''ieee.std_logic_1164'' \<and>
   nodes (remove lib_user_graph [''ieee'', ''std'']) =
     [(''work.alu'', Some ''/prj/vhdl/alu.vhd''), (''work.util'', None), (''work.alu.*'', None)] \<and>
   edges (remove lib_user_graph [''ieee'', ''std'']) = [(''work.alu'', ''work.util'')]"
proof -
  have c: "edges_closed lib_user_graph"
    by (simp add: lib_user_graph_eq edges_closed_def has_node_def)
  have s: "std_unit ''ieee.std_logic_1164''" by (simp add: std_unit_def)
  have h: "has_node lib_user_graph ''ieee.std_logic_1164''"
    by (simp add: lib_user_graph_eq has_node_def)
  from remove_prunes[OF c] s
  have "\<not> has_node (remove lib_user_graph [''ieee'', ''std'']) ''ieee.std_logic_1164''"
    and "nodes (remove lib_user_graph [''ieee'', ''std'']) =
           filter (\<lambda>(n, kw). \<not> std_unit n) (nodes lib_user_graph)"
    and "edges (remove lib_user_graph [''ieee'', ''std'']) =
           filter (\<lambda>(a, b). \<not> std_unit a \<and> \<not> std_unit b) (edges lib_user_graph)"
    by blast+
  then show ?thesis using c s h by (simp add: lib_user_graph_eq std_unit_def)
qed



text \<open>
  Claim C6. Same-file exclusion: for a node \<open>n\<close> with a \<^verbatim>\<open>file\<close> attribute, in a graph
  that satisfies the invariants, what the loop writes for \<open>n\<close> is its design-unit rule and
  then its object rule: the object file, a colon, and \<^verbatim>\<open>du/<d>\<close> for each dependency \<open>d\<close>
  kept. The text \<^verbatim>\<open>du/<d>\<close> of a node \<open>d\<close> is written for \<open>n\<close> exactly when there is an edge
  from \<open>n\<close> to \<open>d\<close> and the \<^verbatim>\<open>file\<close> attribute of \<open>d\<close> differs from that of \<open>n\<close>; and
  \<^verbatim>\<open>du/<d>\<close> is the target of the design-unit rule of \<open>d\<close>, whether \<open>d\<close> has a file or is a
  wildcard node. So two units defined in the same file never have one another's
  design-unit rule in their object rules.
\<close>

theorem same_file_exclusion:
  assumes "edges_closed g" and "normalized g"
    and "map_of (nodes g) n = Some (Some f)" and "rel f = Some r" and "has_node g d"
  shows "rule_for g rel n =
           ([(Stdout, ''du/'' @ replace_star n @ '': '' @ ''obj/'' @ r @ ''.o'' @ [CHR 0x0A]),
             (Stdout, [CHR 0x09] @ ''@echo [DU] '' @ replace_star n @ [CHR 0x0A]),
             (Stdout, [CHR 0x09] @ ''@mkdir -p $(@D)'' @ [CHR 0x0A]),
             (Stdout, [CHR 0x09] @ ''@touch $@'' @ [CHR 0x0A]),
             (Stdout, ''obj/'' @ r @ ''.o'' @ '': '')] @
            map (\<lambda>d'. (Stdout, ''du/'' @ replace_star d' @ '' ''))
              (filter (\<lambda>d'. map_of (nodes g) d' \<noteq> Some (Some f)) (map snd (out_edges g n))) @
            [(Stdout, [CHR 0x0A]),
             (Stdout, (if testbench_file (''obj/'' @ r @ ''.o'') then ''OBJS_TB += ''
                       else ''OBJS += '') @ ''obj/'' @ r @ ''.o'' @ [CHR 0x0A])],
            None) \<and>
         ((Stdout, ''du/'' @ replace_star d @ '' '') \<in> set (fst (rule_for g rel n)) \<longleftrightarrow>
            (n, d) \<in> set (edges g) \<and> map_of (nodes g) d \<noteq> Some (Some f)) \<and>
         (\<forall>f' r'. map_of (nodes g) d = Some (Some f') \<longrightarrow> rel f' = Some r' \<longrightarrow>
            hd (fst (rule_for g rel d)) =
              (Stdout, ''du/'' @ replace_star d @ '': '' @ ''obj/'' @ r' @ ''.o'' @ [CHR 0x0A])) \<and>
         (map_of (nodes g) d = Some None \<longrightarrow> CHR ''*'' \<in> set d \<longrightarrow>
            fst (rule_for g rel d) =
              [(Stdout, ''du/'' @ replace_star d @ '': '' @ [CHR 0x0A]),
               (Stdout, [CHR 0x09] @ ''@echo [DU] '' @ replace_star d @ [CHR 0x0A]),
               (Stdout, [CHR 0x09] @ ''@mkdir -p $(@D)'' @ [CHR 0x0A]),
               (Stdout, [CHR 0x09] @ ''@touch $@'' @ [CHR 0x0A])])"
proof -
  let ?deps = "filter (\<lambda>d'. map_of (nodes g) d' \<noteq> Some (Some f)) (map snd (out_edges g n))"
  have cl: "\<forall>(a, d)\<in>set (out_edges g n). has_node g d"
    using assms(1) by (auto simp: edges_closed_def out_edges_def)
  have pd: "print_deps g (Some f) (out_edges g n) =
      (map (\<lambda>d'. (Stdout, ''du/'' @ replace_star d' @ '' '')) ?deps, None)"
    using cl by (rule print_deps_closed)
  have rule: "rule_for g rel n =
           ([(Stdout, ''du/'' @ replace_star n @ '': '' @ ''obj/'' @ r @ ''.o'' @ [CHR 0x0A]),
             (Stdout, [CHR 0x09] @ ''@echo [DU] '' @ replace_star n @ [CHR 0x0A]),
             (Stdout, [CHR 0x09] @ ''@mkdir -p $(@D)'' @ [CHR 0x0A]),
             (Stdout, [CHR 0x09] @ ''@touch $@'' @ [CHR 0x0A]),
             (Stdout, ''obj/'' @ r @ ''.o'' @ '': '')] @
            map (\<lambda>d'. (Stdout, ''du/'' @ replace_star d' @ '' '')) ?deps @
            [(Stdout, [CHR 0x0A]),
             (Stdout, (if testbench_file (''obj/'' @ r @ ''.o'') then ''OBJS_TB += ''
                       else ''OBJS += '') @ ''obj/'' @ r @ ''.o'' @ [CHR 0x0A])],
            None)"
    by (simp add: rule_for_def assms(3,4) obj_file_of_def Let_def pd design_unit_rule_def
          newline_def)
  have "lower d = d" using assms(2,5) by (simp add: normalized_iff)
  then have nd: "CHR ''A'' \<notin> set d" by (rule lower_fixed_no_A)
  have first: "''du/'' @ replace_star d @ '' '' \<noteq>
        ''du/'' @ replace_star n @ '': '' @ ''obj/'' @ r @ ''.o'' @ [CHR 0x0A]"
    using token_neq_line[of "replace_star d" "replace_star n @ '': '' @ ''obj/'' @ r @ ''.o''"]
    by simp
  have mem: "(Stdout, ''du/'' @ replace_star d @ '' '') \<in> set (fst (rule_for g rel n)) \<longleftrightarrow>
        (Stdout, ''du/'' @ replace_star d @ '' '') \<in>
          (\<lambda>d'. (Stdout, ''du/'' @ replace_star d' @ '' '')) ` set ?deps"
    unfolding rule using first by (auto split: if_splits)
  have iff: "(Stdout, ''du/'' @ replace_star d @ '' '') \<in> set (fst (rule_for g rel n)) \<longleftrightarrow>
            (n, d) \<in> set (edges g) \<and> map_of (nodes g) d \<noteq> Some (Some f)"
    unfolding mem
  proof
    assume "(Stdout, ''du/'' @ replace_star d @ '' '') \<in>
          (\<lambda>d'. (Stdout, ''du/'' @ replace_star d' @ '' '')) ` set ?deps"
    then obtain d' where o: "d' \<in> snd ` set (out_edges g n)"
      and d'2: "map_of (nodes g) d' \<noteq> Some (Some f)"
      and tok: "''du/'' @ replace_star d @ '' '' = ''du/'' @ replace_star d' @ '' ''"
      by auto
    from o have d'1: "(n, d') \<in> set (edges g)" by (auto simp: out_edges_def)
    from d'1 assms(1) have "has_node g d'" by (auto simp: edges_closed_def)
    then have "lower d' = d'" using assms(2) by (simp add: normalized_iff)
    then have nd': "CHR ''A'' \<notin> set d'" by (rule lower_fixed_no_A)
    from nd nd' tok have "d = d'" by (rule token_inj)
    with d'1 d'2 show "(n, d) \<in> set (edges g) \<and> map_of (nodes g) d \<noteq> Some (Some f)" by simp
  next
    assume "(n, d) \<in> set (edges g) \<and> map_of (nodes g) d \<noteq> Some (Some f)"
    then have "d \<in> snd ` set (out_edges g n)" and "map_of (nodes g) d \<noteq> Some (Some f)"
      by (force simp: out_edges_def)+
    then show "(Stdout, ''du/'' @ replace_star d @ '' '') \<in>
          (\<lambda>d'. (Stdout, ''du/'' @ replace_star d' @ '' '')) ` set ?deps"
      by auto
  qed
  have target: "\<forall>f' r'. map_of (nodes g) d = Some (Some f') \<longrightarrow> rel f' = Some r' \<longrightarrow>
            hd (fst (rule_for g rel d)) =
              (Stdout, ''du/'' @ replace_star d @ '': '' @ ''obj/'' @ r' @ ''.o'' @ [CHR 0x0A])"
    by (auto simp: rule_for_def obj_file_of_def Let_def design_unit_rule_def newline_def
          split: prod.splits option.splits)
  have wild: "map_of (nodes g) d = Some None \<longrightarrow> CHR ''*'' \<in> set d \<longrightarrow>
            fst (rule_for g rel d) =
              [(Stdout, ''du/'' @ replace_star d @ '': '' @ [CHR 0x0A]),
               (Stdout, [CHR 0x09] @ ''@echo [DU] '' @ replace_star d @ [CHR 0x0A]),
               (Stdout, [CHR 0x09] @ ''@mkdir -p $(@D)'' @ [CHR 0x0A]),
               (Stdout, [CHR 0x09] @ ''@touch $@'' @ [CHR 0x0A])]"
    by (auto simp: rule_for_def obj_file_of_def Let_def design_unit_rule_def newline_def
          str_in_ANY_star)
  from rule iff target wild show ?thesis by blast
qed

theorem same_file_exclusion_witness:
  "edges_closed counter_graph \<and> normalized counter_graph \<and>
   map_of (nodes counter_graph) ''work.counter.rtl'' = Some (Some ''/prj/vhdl/counter.vhd'') \<and>
   map_of (nodes counter_graph) ''work.counter'' = Some (Some ''/prj/vhdl/counter.vhd'') \<and>
   rel_prj ''/prj/vhdl/counter.vhd'' = Some ''vhdl/counter.vhd'' \<and>
   (''work.counter.rtl'', ''work.counter'') \<in> set (edges counter_graph) \<and>
   (Stdout, ''du/work.counter '')
     \<notin> set (fst (rule_for counter_graph rel_prj ''work.counter.rtl'')) \<and>
   (Stdout, ''du/work.counter.rtl '')
     \<notin> set (fst (rule_for counter_graph rel_prj ''work.counter'')) \<and>
   (Stdout, ''du/ANY.counter '') \<in> set (fst (rule_for counter_graph rel_prj ''work.top'')) \<and>
   rule_for counter_graph rel_prj ''work.top'' =
     ([(Stdout, ''du/work.top: obj/vhdl/top.vhd.o'' @ [CHR 0x0A]),
       (Stdout, [CHR 0x09] @ ''@echo [DU] work.top'' @ [CHR 0x0A]),
       (Stdout, [CHR 0x09] @ ''@mkdir -p $(@D)'' @ [CHR 0x0A]),
       (Stdout, [CHR 0x09] @ ''@touch $@'' @ [CHR 0x0A]),
       (Stdout, ''obj/vhdl/top.vhd.o: ''),
       (Stdout, ''du/ANY.counter ''),
       (Stdout, [CHR 0x0A]),
       (Stdout, ''OBJS += obj/vhdl/top.vhd.o'' @ [CHR 0x0A])], None) \<and>
   fst (rule_for counter_graph rel_prj ''*.counter'') =
     [(Stdout, ''du/ANY.counter: '' @ [CHR 0x0A]),
      (Stdout, [CHR 0x09] @ ''@echo [DU] ANY.counter'' @ [CHR 0x0A]),
      (Stdout, [CHR 0x09] @ ''@mkdir -p $(@D)'' @ [CHR 0x0A]),
      (Stdout, [CHR 0x09] @ ''@touch $@'' @ [CHR 0x0A])]"
proof -
  have a: "map_of (nodes counter_graph) ''work.counter.rtl'' = Some (Some ''/prj/vhdl/counter.vhd'')"
    and b: "map_of (nodes counter_graph) ''work.counter'' = Some (Some ''/prj/vhdl/counter.vhd'')"
    and e: "(''work.counter.rtl'', ''work.counter'') \<in> set (edges counter_graph)"
    and h: "has_node counter_graph ''work.counter''" "has_node counter_graph ''work.counter.rtl''"
    by (simp_all add: counter_graph_eq has_node_def)
  have r: "rel_prj ''/prj/vhdl/counter.vhd'' = Some ''vhdl/counter.vhd''"
    and r': "rel_prj ''/prj/vhdl/top.vhd'' = Some ''vhdl/top.vhd''"
    by (simp_all add: rel_prj_def)
  have c: "map_of (nodes counter_graph) ''work.top'' = Some (Some ''/prj/vhdl/top.vhd'')"
    and h': "has_node counter_graph ''*.counter''"
    and e': "(''work.top'', ''*.counter'') \<in> set (edges counter_graph)"
    and n': "map_of (nodes counter_graph) ''*.counter'' \<noteq> Some (Some ''/prj/vhdl/top.vhd'')"
    and w: "map_of (nodes counter_graph) ''*.counter'' = Some None"
    and st: "CHR ''*'' \<in> set ''*.counter''"
    by (simp_all add: counter_graph_eq has_node_def)
  note t = same_file_exclusion[where rel = rel_prj, OF counter_graph_inv]
  from t[OF a r h(1), THEN conjunct2, THEN conjunct1, unfolded replace_star_examples] b
  have x: "(Stdout, ''du/work.counter '')
     \<notin> set (fst (rule_for counter_graph rel_prj ''work.counter.rtl''))"
    by simp
  from t[OF b r h(2), THEN conjunct2, THEN conjunct1, unfolded replace_star_examples] a
  have y: "(Stdout, ''du/work.counter.rtl '')
     \<notin> set (fst (rule_for counter_graph rel_prj ''work.counter''))"
    by simp
  note tz = t[OF c r' h']
  from tz[THEN conjunct2, THEN conjunct1, unfolded replace_star_examples] e' n'
  have z: "(Stdout, ''du/ANY.counter '') \<in> set (fst (rule_for counter_graph rel_prj ''work.top''))"
    by simp
  from tz[THEN conjunct2, THEN conjunct2, THEN conjunct2, unfolded replace_star_examples] w st
  have v: "fst (rule_for counter_graph rel_prj ''*.counter'') =
     [(Stdout, ''du/ANY.counter: '' @ [CHR 0x0A]),
      (Stdout, [CHR 0x09] @ ''@echo [DU] ANY.counter'' @ [CHR 0x0A]),
      (Stdout, [CHR 0x09] @ ''@mkdir -p $(@D)'' @ [CHR 0x0A]),
      (Stdout, [CHR 0x09] @ ''@touch $@'' @ [CHR 0x0A])]"
    by simp
  have full: "rule_for counter_graph rel_prj ''work.top'' =
     ([(Stdout, ''du/work.top: obj/vhdl/top.vhd.o'' @ [CHR 0x0A]),
       (Stdout, [CHR 0x09] @ ''@echo [DU] work.top'' @ [CHR 0x0A]),
       (Stdout, [CHR 0x09] @ ''@mkdir -p $(@D)'' @ [CHR 0x0A]),
       (Stdout, [CHR 0x09] @ ''@touch $@'' @ [CHR 0x0A]),
       (Stdout, ''obj/vhdl/top.vhd.o: ''),
       (Stdout, ''du/ANY.counter ''),
       (Stdout, [CHR 0x0A]),
       (Stdout, ''OBJS += obj/vhdl/top.vhd.o'' @ [CHR 0x0A])], None)"
    by code_simp
  show ?thesis using counter_graph_inv a b r e x y z full v by blast
qed




text \<open>
  Claim C9. Two instances do not own independent storage: the instances 0 and 1 both
  observe the empty graph at first, and a node or an edge added through instance 0 is in
  the graph that instance 1 observes.
\<close>

theorem class_containers_shared:
  "view fresh_store 1 = empty_graph \<and>
   view (store_add_node fresh_store 0 ''work.a'' (Some ''/prj/a.vhd'')) 1 =
     \<lparr>nodes = [(''work.a'', Some ''/prj/a.vhd'')], edges = []\<rparr> \<and>
   view (store_add_edge fresh_store 0 ''work.a'' ''work.b'') 1 =
     \<lparr>nodes = [(''work.a'', None), (''work.b'', None)], edges = [(''work.a'', ''work.b'')]\<rparr>"
  by (simp add: view_def fresh_store_def self_edges_def empty_graph_def store_add_node_def
        store_add_edge_def add_node_def add_edge_def ensure_node_def has_node_def Let_def)

end
